theory Spec2Isabelle
  imports Complex_Main "HOL-Library.Option_ord" "HOL-Library.Multiset"
begin

section \<open>Data model\<close>

text \<open>
  The three tables of \<^verbatim>\<open>events_db.sql\<close> and the two Sequelize models
  \<^verbatim>\<open>models/Event.js\<close> and \<^verbatim>\<open>models/Registration.js\<close>. Identifiers are the
  \<^verbatim>\<open>char(36)\<close> strings of the schema, \<^verbatim>\<open>datetime\<close> columns are integers (a point in
  time), and a nullable column is an \<open>option\<close>.
\<close>

type_synonym uuid = string
type_synonym datetime = int

datatype role = ADMIN | USER

datatype status = PENDING | CONFIRMED | CANCELLED

record user =
  u_id :: uuid
  u_name :: string
  u_email :: string
  u_password :: string
  u_role :: role
  u_createdAt :: datetime
  u_updatedAt :: datetime

record event =
  e_id :: uuid
  e_name :: string
  e_description :: "string option"
  e_date :: datetime
  e_location :: string
  e_capacity :: int
  e_createdAt :: datetime
  e_updatedAt :: datetime

record registration =
  r_id :: uuid
  r_status :: status
  r_UserId :: "uuid option"
  r_EventId :: "uuid option"
  r_createdAt :: datetime
  r_updatedAt :: datetime

text \<open>The database: one list of rows per table, in insertion order.\<close>

record store =
  Users :: "user list"
  Events :: "event list"
  Registrations :: "registration list"

text \<open>
  The errors the ORM raises, by class. Each handler catches them and answers 400 with
  \<^verbatim>\<open>error.message\<close>.
\<close>

datatype db_error =
  ValidationError
  | UniqueConstraintError

section \<open>Requests and responses\<close>

text \<open>
  A JSON request body for an event: every field is either absent or present with a value.
\<close>

record event_body =
  b_id :: "uuid option"
  b_name :: "string option"
  b_description :: "string option"
  b_date :: "datetime option"
  b_location :: "string option"
  b_capacity :: "int option"

text \<open>
  The query string of \<^verbatim>\<open>GET /api/events\<close>: each parameter is absent or a string.
\<close>

record list_query =
  q_page :: "string option"
  q_limit :: "string option"
  q_sort :: "string option"

text \<open>
  \<^verbatim>\<open>currentPage\<close> echoes \<^verbatim>\<open>page\<close>: the number 1 when the parameter is absent, the
  string of the query otherwise.
\<close>

datatype page_value = PageNum int | PageStr string

record event_page =
  p_events :: "event list"
  p_totalPages :: int
  p_currentPage :: page_value

datatype body =
  JEvents event_page
  | JEvent event
  | JRegistration registration
  | JError string
  | JDbError db_error
  | JEmpty

text \<open>
  What a route does with a request: one of its middlewares refuses it, or the handler
  answers with a status code and a body. The middlewares \<^verbatim>\<open>auth\<close> and \<^verbatim>\<open>isAdmin\<close> live in
  \<^verbatim>\<open>middleware/auth.js\<close>, which is not among the sources, so the status code of a refusal
  is left open.
\<close>

datatype outcome =
  RefusedByAuth
  | RefusedByIsAdmin
  | Response nat body

section \<open>Table operations\<close>

definition Event_findByPk :: "store \<Rightarrow> uuid \<Rightarrow> event option" where
  "Event_findByPk s i = find (\<lambda>e. e_id e = i) (Events s)"

text \<open>
  \<^verbatim>\<open>Registration.count({ where: { EventId: event.id, status: 'CONFIRMED' } })\<close>
\<close>

definition Registration_count :: "store \<Rightarrow> uuid \<Rightarrow> nat" where
  "Registration_count s i =
     length (filter (\<lambda>r. r_EventId r = Some i \<and> r_status r = CONFIRMED) (Registrations s))"

text \<open>
  \<^verbatim>\<open>Registration.create({ UserId, EventId })\<close>. The model \<^verbatim>\<open>models/Registration.js\<close>
  declares the attributes \<^verbatim>\<open>id\<close> and \<^verbatim>\<open>status\<close> only, and no source file declares an
  association that would add \<^verbatim>\<open>UserId\<close> or \<^verbatim>\<open>EventId\<close> to it. The ORM writes the
  attributes the model declares, so the two identifiers the handler passes are dropped:
  the row is inserted, and returned, with both references \<^verbatim>\<open>NULL\<close>, as is the one
  registration in the dump \<^verbatim>\<open>events_db.sql\<close>. The primary key is the generated UUID
  \<open>g\<close>, \<^verbatim>\<open>status\<close> is not supplied and takes its default \<^verbatim>\<open>'PENDING'\<close>, both timestamps
  are the current time. The insert is refused when the primary key is taken; with both
  references \<^verbatim>\<open>NULL\<close> neither foreign key has anything to check.
\<close>

definition new_registration :: "uuid \<Rightarrow> datetime \<Rightarrow> registration" where
  "new_registration g now =
     \<lparr>r_id = g, r_status = PENDING, r_UserId = None, r_EventId = None,
      r_createdAt = now, r_updatedAt = now\<rparr>"

definition Registration_create ::
  "store \<Rightarrow> uuid \<Rightarrow> datetime \<Rightarrow> uuid \<Rightarrow> uuid \<Rightarrow> db_error + (registration \<times> store)" where
  "Registration_create s g now uid eid =
     (let r = new_registration g now
      in if g \<in> set (map r_id (Registrations s)) then Inl UniqueConstraintError
         else Inr (r, s\<lparr>Registrations := Registrations s @ [r]\<rparr>))"

text \<open>
  \<^verbatim>\<open>Event.create(req.body)\<close>. The model validates before it inserts: \<^verbatim>\<open>name\<close>,
  \<^verbatim>\<open>date\<close>, \<^verbatim>\<open>location\<close> and \<^verbatim>\<open>capacity\<close> have \<^verbatim>\<open>allowNull: false\<close>, and
  \<^verbatim>\<open>capacity\<close> has \<^verbatim>\<open>validate: { min: 1 }\<close>. The primary key is the \<^verbatim>\<open>id\<close> of the body
  when it has one, the generated UUID \<open>g\<close> otherwise.
\<close>

definition Event_create ::
  "store \<Rightarrow> uuid \<Rightarrow> datetime \<Rightarrow> event_body \<Rightarrow> db_error + (event \<times> store)" where
  "Event_create s g now b =
     (case (b_name b, b_date b, b_location b, b_capacity b) of
        (Some n, Some d, Some l, Some c) \<Rightarrow>
          if c < 1 then Inl ValidationError
          else
            (let ev = \<lparr>e_id = (case b_id b of Some i \<Rightarrow> i | None \<Rightarrow> g), e_name = n,
                        e_description = b_description b, e_date = d, e_location = l,
                        e_capacity = c, e_createdAt = now, e_updatedAt = now\<rparr>
             in if e_id ev \<in> set (map e_id (Events s)) then Inl UniqueConstraintError
                else Inr (ev, s\<lparr>Events := Events s @ [ev]\<rparr>))
      | _ \<Rightarrow> Inl ValidationError)"

text \<open>
  \<^verbatim>\<open>event.update(req.body)\<close>: the fields present in the body replace those of the row,
  the primary key stays, a new \<^verbatim>\<open>capacity\<close> is validated against \<^verbatim>\<open>min: 1\<close>, and
  \<^verbatim>\<open>updatedAt\<close> becomes the current time.
\<close>

definition Event_update ::
  "store \<Rightarrow> event \<Rightarrow> datetime \<Rightarrow> event_body \<Rightarrow> db_error + (event \<times> store)" where
  "Event_update s ev now b =
     (if (case b_capacity b of Some c \<Rightarrow> c < 1 | None \<Rightarrow> False) then Inl ValidationError
      else
        (let ev' = ev\<lparr>e_name := (case b_name b of Some n \<Rightarrow> n | None \<Rightarrow> e_name ev),
                       e_description := (case b_description b of Some d \<Rightarrow> Some d
                                         | None \<Rightarrow> e_description ev),
                       e_date := (case b_date b of Some d \<Rightarrow> d | None \<Rightarrow> e_date ev),
                       e_location := (case b_location b of Some l \<Rightarrow> l | None \<Rightarrow> e_location ev),
                       e_capacity := (case b_capacity b of Some c \<Rightarrow> c | None \<Rightarrow> e_capacity ev),
                       e_updatedAt := now\<rparr>
         in Inr (ev', s\<lparr>Events := map (\<lambda>e. if e_id e = e_id ev then ev' else e) (Events s)\<rparr>)))"

text \<open>
  \<^verbatim>\<open>event.destroy()\<close> issues \<^verbatim>\<open>DELETE FROM Events WHERE id = ?\<close>. The foreign key
  \<^verbatim>\<open>registrations_ibfk_2 ... REFERENCES Events (id) ON DELETE CASCADE\<close> makes the
  database delete the registrations of the event with it.
\<close>

definition Event_destroy :: "store \<Rightarrow> uuid \<Rightarrow> store" where
  "Event_destroy s i =
     s\<lparr>Events := filter (\<lambda>e. e_id e \<noteq> i) (Events s),
       Registrations := filter (\<lambda>r. r_EventId r \<noteq> Some i) (Registrations s)\<rparr>"

text \<open>
  The statements on the \<^verbatim>\<open>Users\<close> table. The routes that issue them
  (\<^verbatim>\<open>routes/auth.js\<close>) are not among the sources; the schema decides what they do to the
  other tables. An insert respects the primary key and \<^verbatim>\<open>UNIQUE KEY email\<close>; a delete
  cascades along \<^verbatim>\<open>registrations_ibfk_1 ... REFERENCES Users (id) ON DELETE CASCADE\<close>.
\<close>

definition User_create :: "store \<Rightarrow> user \<Rightarrow> db_error + store" where
  "User_create s u =
     (if u_id u \<in> set (map u_id (Users s)) \<or> u_email u \<in> set (map u_email (Users s))
      then Inl UniqueConstraintError
      else Inr (s\<lparr>Users := Users s @ [u]\<rparr>))"

definition User_destroy :: "store \<Rightarrow> uuid \<Rightarrow> store" where
  "User_destroy s i =
     s\<lparr>Users := filter (\<lambda>u. u_id u \<noteq> i) (Users s),
       Registrations := filter (\<lambda>r. r_UserId r \<noteq> Some i) (Registrations s)\<rparr>"




section \<open>Numbers in the query string\<close>






section \<open>Route handlers\<close>

text \<open>
  Every handler takes the store and returns the outcome with the store after the request.
  The argument \<open>caller\<close> is what the \<^verbatim>\<open>auth\<close> middleware leaves in \<^verbatim>\<open>req.user\<close>:
  \<open>None\<close> when it refuses the request. The arguments \<open>g\<close> and \<open>now\<close> are the UUID
  and the clock reading the ORM would draw during the request.
\<close>

text \<open>\<^verbatim>\<open>router.post('/:id/register', auth, ...)\<close>\<close>

definition register_handler ::
  "store \<Rightarrow> user option \<Rightarrow> uuid \<Rightarrow> uuid \<Rightarrow> datetime \<Rightarrow> outcome \<times> store" where
  "register_handler s caller i g now =
     (case caller of
        None \<Rightarrow> (RefusedByAuth, s)
      | Some u \<Rightarrow>
          (case Event_findByPk s i of
             None \<Rightarrow> (Response 404 (JError ''Event not found''), s)
           | Some ev \<Rightarrow>
               (let registrationCount = Registration_count s (e_id ev)
                in if int registrationCount \<ge> e_capacity ev
                   then (Response 400 (JError ''Event is full''), s)
                   else (case Registration_create s g now (u_id u) (e_id ev) of
                           Inl err \<Rightarrow> (Response 400 (JDbError err), s)
                         | Inr (registration, s') \<Rightarrow>
                             (Response 201 (JRegistration registration), s')))))"


text \<open>\<^verbatim>\<open>router.post('/', auth, ...)\<close>\<close>

definition create_handler ::
  "store \<Rightarrow> user option \<Rightarrow> uuid \<Rightarrow> datetime \<Rightarrow> event_body \<Rightarrow> outcome \<times> store" where
  "create_handler s caller g now b =
     (case caller of
        None \<Rightarrow> (RefusedByAuth, s)
      | Some u \<Rightarrow>
          (case Event_create s g now b of
             Inl err \<Rightarrow> (Response 400 (JDbError err), s)
           | Inr (ev, s') \<Rightarrow> (Response 201 (JEvent ev), s')))"

text \<open>\<^verbatim>\<open>router.put('/:id', auth, ...)\<close>\<close>

definition update_handler ::
  "store \<Rightarrow> user option \<Rightarrow> uuid \<Rightarrow> datetime \<Rightarrow> event_body \<Rightarrow> outcome \<times> store" where
  "update_handler s caller i now b =
     (case caller of
        None \<Rightarrow> (RefusedByAuth, s)
      | Some u \<Rightarrow>
          (case Event_findByPk s i of
             None \<Rightarrow> (Response 404 (JError ''Event not found''), s)
           | Some ev \<Rightarrow>
               (case Event_update s ev now b of
                  Inl err \<Rightarrow> (Response 400 (JDbError err), s)
                | Inr (ev', s') \<Rightarrow> (Response 200 (JEvent ev'), s'))))"

text \<open>
  Modelled from the spec: the middleware \<^verbatim>\<open>isAdmin\<close> of \<^verbatim>\<open>middleware/auth.js\<close>, which is
  not among the sources. The spec gives the delete route as "auth + admin" and the roles
  as ADMIN and USER; the route's own documentation says "Only accessible to admins".
\<close>

definition isAdmin :: "user \<Rightarrow> bool" where
  "isAdmin u = (u_role u = ADMIN)"

text \<open>\<^verbatim>\<open>router.delete('/:id', [auth, isAdmin], ...)\<close>\<close>

definition delete_handler :: "store \<Rightarrow> user option \<Rightarrow> uuid \<Rightarrow> outcome \<times> store" where
  "delete_handler s caller i =
     (case caller of
        None \<Rightarrow> (RefusedByAuth, s)
      | Some u \<Rightarrow>
          if \<not> isAdmin u then (RefusedByIsAdmin, s)
          else
            (case Event_findByPk s i of
               None \<Rightarrow> (Response 404 (JError ''Event not found''), s)
             | Some ev \<Rightarrow> (Response 204 JEmpty, Event_destroy s (e_id ev))))"

text \<open>A request is permitted on a route when no middleware refuses it: the handler answers.\<close>

definition permitted :: "outcome \<Rightarrow> bool" where
  "permitted out = (case out of Response code b \<Rightarrow> True | _ \<Rightarrow> False)"

section \<open>Sequences of operations\<close>

text \<open>
  One constructor per route, with the arguments of its handler, and the two statements on
  the \<^verbatim>\<open>Users\<close> table. \<open>apply_op\<close> is the effect of one operation on the store, and
  \<open>run\<close> that of a sequence of them.
\<close>

datatype op =
  ListEvents list_query
  | CreateEvent "user option" uuid datetime event_body
  | RegisterFor "user option" uuid uuid datetime
  | UpdateEvent "user option" uuid datetime event_body
  | DeleteEvent "user option" uuid
  | InsertUser user
  | DeleteUser uuid

fun apply_op :: "store \<Rightarrow> op \<Rightarrow> store" where
  "apply_op s (ListEvents q) = s"
| "apply_op s (CreateEvent caller g now b) = snd (create_handler s caller g now b)"
| "apply_op s (RegisterFor caller i g now) = snd (register_handler s caller i g now)"
| "apply_op s (UpdateEvent caller i now b) = snd (update_handler s caller i now b)"
| "apply_op s (DeleteEvent caller i) = snd (delete_handler s caller i)"
| "apply_op s (InsertUser u) = (case User_create s u of Inl err \<Rightarrow> s | Inr s' \<Rightarrow> s')"
| "apply_op s (DeleteUser i) = User_destroy s i"

definition run :: "store \<Rightarrow> op list \<Rightarrow> store" where
  "run s ops = foldl apply_op s ops"

text \<open>
  The same caller registering for the same event several times in a row, each call with
  its own UUID and clock reading; the outcomes in order and the store at the end.
\<close>

fun register_repeatedly ::
  "store \<Rightarrow> user \<Rightarrow> uuid \<Rightarrow> (uuid \<times> datetime) list \<Rightarrow> outcome list \<times> store" where
  "register_repeatedly s u i [] = ([], s)"
| "register_repeatedly s u i ((g, now) # rest) =
     (case register_handler s (Some u) i g now of
        (out, s') \<Rightarrow> (case register_repeatedly s' u i rest of (outs, s'') \<Rightarrow> (out # outs, s'')))"

text \<open>The check constraint \<^verbatim>\<open>events_chk_1\<close>: \<^verbatim>\<open>CHECK (capacity >= 1)\<close>.\<close>

definition events_chk_1 :: "store \<Rightarrow> bool" where
  "events_chk_1 s = list_all (\<lambda>e. e_capacity e \<ge> 1) (Events s)"

section \<open>The register handler between its awaits\<close>

text \<open>
  The handler awaits three database calls: \<^verbatim>\<open>findByPk\<close>, \<^verbatim>\<open>count\<close> and \<^verbatim>\<open>create\<close>.
  Other requests can run between them. A request in flight is at one of these calls, with
  the local variables it has by then, or has answered; \<open>reg_step\<close> runs it up to its next
  await.
\<close>

datatype request =
  AtFindByPk "user option" uuid uuid datetime
  | AtCount user event uuid datetime
  | AtCreate user event uuid datetime
  | Answered outcome

fun reg_step :: "store \<Rightarrow> request \<Rightarrow> request \<times> store" where
  "reg_step s (AtFindByPk caller i g now) =
     (case caller of
        None \<Rightarrow> (Answered RefusedByAuth, s)
      | Some u \<Rightarrow>
          (case Event_findByPk s i of
             None \<Rightarrow> (Answered (Response 404 (JError ''Event not found'')), s)
           | Some ev \<Rightarrow> (AtCount u ev g now, s)))"
| "reg_step s (AtCount u ev g now) =
     (if int (Registration_count s (e_id ev)) \<ge> e_capacity ev
      then (Answered (Response 400 (JError ''Event is full'')), s)
      else (AtCreate u ev g now, s))"
| "reg_step s (AtCreate u ev g now) =
     (case Registration_create s g now (u_id u) (e_id ev) of
        Inl err \<Rightarrow> (Answered (Response 400 (JDbError err)), s)
      | Inr (registration, s') \<Rightarrow> (Answered (Response 201 (JRegistration registration)), s'))"
| "reg_step s (Answered out) = (Answered out, s)"

text \<open>
  A schedule names, step by step, the request that runs next; \<open>interleave\<close> runs the
  requests in that order against the one store.
\<close>

fun interleave :: "store \<Rightarrow> request list \<Rightarrow> nat list \<Rightarrow> store \<times> request list" where
  "interleave s reqs [] = (s, reqs)"
| "interleave s reqs (k # ks) =
     (if k < length reqs
      then (case reg_step s (reqs ! k) of (req', s') \<Rightarrow> interleave s' (reqs[k := req']) ks)
      else interleave s reqs ks)"

definition succeeded :: "request \<Rightarrow> bool" where
  "succeeded req = (case req of Answered (Response code b) \<Rightarrow> code = 201 | _ \<Rightarrow> False)"

definition full :: "request \<Rightarrow> bool" where
  "full req = (req = Answered (Response 400 (JError ''Event is full'')))"

section \<open>Example data\<close>

text \<open>A small database for the concrete instances below: two users, one event with a single
  place, and the same database with that place taken by a confirmed registration.\<close>

definition alice :: user where
  "alice = \<lparr>u_id = ''u1'', u_name = ''Alice'', u_email = ''alice@example.org'',
             u_password = ''secret'', u_role = USER, u_createdAt = 0, u_updatedAt = 0\<rparr>"

definition carol :: user where
  "carol = \<lparr>u_id = ''u2'', u_name = ''Carol'', u_email = ''carol@example.org'',
             u_password = ''secret'', u_role = ADMIN, u_createdAt = 0, u_updatedAt = 0\<rparr>"

definition talk :: event where
  "talk = \<lparr>e_id = ''e1'', e_name = ''Talk'', e_description = None, e_date = 100,
            e_location = ''Hall'', e_capacity = 1, e_createdAt = 0, e_updatedAt = 0\<rparr>"

definition seat :: registration where
  "seat = \<lparr>r_id = ''r0'', r_status = CONFIRMED, r_UserId = Some ''u2'', r_EventId = Some ''e1'',
            r_createdAt = 1, r_updatedAt = 1\<rparr>"

definition open_store :: store where
  "open_store = \<lparr>Users = [alice, carol], Events = [talk], Registrations = []\<rparr>"

definition full_store :: store where
  "full_store = \<lparr>Users = [alice, carol], Events = [talk], Registrations = [seat]\<rparr>"

text \<open>A second event, a pending registration for it, and a request body that renames an
  event.\<close>

definition seat2 :: registration where
  "seat2 = \<lparr>r_id = ''r9'', r_status = PENDING, r_UserId = Some ''u1'', r_EventId = Some ''e2'',
            r_createdAt = 2, r_updatedAt = 2\<rparr>"

definition workshop :: event where
  "workshop = \<lparr>e_id = ''e2'', e_name = ''Workshop'', e_description = Some ''Hands-on'',
                e_date = 50, e_location = ''Lab'', e_capacity = 3, e_createdAt = 0,
                e_updatedAt = 0\<rparr>"

definition busy_store :: store where
  "busy_store = \<lparr>Users = [alice, carol], Events = [talk, workshop],
                  Registrations = [seat, seat2]\<rparr>"

definition rename :: event_body where
  "rename = \<lparr>b_id = None, b_name = Some ''Keynote'', b_description = None, b_date = None,
              b_location = None, b_capacity = None\<rparr>"



text \<open>A short session against \<open>open_store\<close>.\<close>

definition demo_ops :: "op list" where
  "demo_ops = [RegisterFor (Some alice) ''e1'' ''r1'' 5,
               RegisterFor (Some alice) ''e1'' ''r2'' 6,
               UpdateEvent (Some alice) ''e1'' 7 rename,
               RegisterFor (Some carol) ''e1'' ''r3'' 8]"

section \<open>Basic facts\<close>

lemma Event_findByPk_Some_id:
  "Event_findByPk s i = Some ev \<Longrightarrow> e_id ev = i \<and> ev \<in> set (Events s)"
  unfolding Event_findByPk_def by (auto simp: find_Some_iff)

lemma Event_findByPk_None_iff:
  "Event_findByPk s i = None \<longleftrightarrow> i \<notin> set (map e_id (Events s))"
  unfolding Event_findByPk_def by (auto simp: find_None_iff)

lemmas demo_defs = alice_def carol_def talk_def seat_def open_store_def full_store_def
  seat2_def workshop_def busy_store_def rename_def

lemma Registration_count_card:
  "Registration_count s i =
     card {k. k < length (Registrations s) \<and> r_EventId (Registrations s ! k) = Some i
              \<and> r_status (Registrations s ! k) = CONFIRMED}"
  unfolding Registration_count_def by (rule length_filter_conv_card)

lemma Registration_create_ok:
  assumes "g \<notin> r_id ` set (Registrations s)"
  shows "Registration_create s g now uid eid =
     Inr (new_registration g now,
          s\<lparr>Registrations := Registrations s @ [new_registration g now]\<rparr>)"
  using assms unfolding Registration_create_def by (simp add: Let_def)

lemma Event_findByPk_row:
  assumes "distinct (map e_id (Events s))" "ev \<in> set (Events s)"
  shows "Event_findByPk s (e_id ev) = Some ev"
proof -
  from assms(2) have "Event_findByPk s (e_id ev) \<noteq> None"
    by (simp add: Event_findByPk_None_iff)
  then obtain ev' where f: "Event_findByPk s (e_id ev) = Some ev'" by blast
  then have "e_id ev' = e_id ev" "ev' \<in> set (Events s)"
    using Event_findByPk_Some_id by blast+
  with assms have "ev' = ev" by (simp add: inj_on_eq_iff [OF iffD1 [OF distinct_map, THEN conjunct2]])
  with f show ?thesis by simp
qed

lemma register_handler_full:
  assumes "Event_findByPk s i = Some ev" "e_capacity ev \<le> int (Registration_count s i)"
  shows "register_handler s (Some u) i g now = (Response 400 (JError ''Event is full''), s)"
proof -
  from assms(1) have "e_id ev = i" using Event_findByPk_Some_id by blast
  with assms show ?thesis by (simp add: register_handler_def)
qed

lemma register_handler_admits:
  assumes "Event_findByPk s i = Some ev" "int (Registration_count s i) < e_capacity ev"
    "g \<notin> r_id ` set (Registrations s)"
  shows "register_handler s (Some u) i g now =
     (Response 201 (JRegistration (new_registration g now)),
      s\<lparr>Registrations := Registrations s @ [new_registration g now]\<rparr>)"
proof -
  from assms(1) have id: "e_id ev = i" using Event_findByPk_Some_id by blast
  from assms(3) have "Registration_create s g now (u_id u) i =
      Inr (new_registration g now,
           s\<lparr>Registrations := Registrations s @ [new_registration g now]\<rparr>)"
    by (rule Registration_create_ok)
  with assms(1,2) id show ?thesis by (simp add: register_handler_def)
qed

lemma register_handler_cases:
  "register_handler s caller i g now = (out, s') \<Longrightarrow>
     (s' = s \<and> (\<forall>b. out \<noteq> Response 201 b))
     \<or> (out = Response 201 (JRegistration (new_registration g now))
          \<and> s' = s\<lparr>Registrations := Registrations s @ [new_registration g now]\<rparr>)"
  unfolding register_handler_def Registration_create_def
  by (auto simp: Let_def split: option.splits if_splits)

lemma Registration_count_append:
  "Registration_count (s\<lparr>Registrations := Registrations s @ [r]\<rparr>) j =
     Registration_count s j + (if r_EventId r = Some j \<and> r_status r = CONFIRMED then 1 else 0)"
  by (simp add: Registration_count_def)

lemma Event_findByPk_Registrations_update [simp]:
  "Event_findByPk (s\<lparr>Registrations := rs\<rparr>) i = Event_findByPk s i"
  by (simp add: Event_findByPk_def)

section \<open>The registration admission operation\<close>

text \<open>
  Claim C1. The register handler is to answer 404 when the event is missing and 400
  "Event is full" when the CONFIRMED count has reached the capacity, and otherwise to
  create one registration row that references the requesting user and the event and
  answer 201 with it. The last part is where the code departs: the handler passes both
  identifiers to \<^verbatim>\<open>Registration.create\<close>, but the model declares neither attribute, so
  the row it stores and returns references nobody. Alice registers for the talk in
  \<open>open_store\<close>: the answer is 201, and the row has neither \<open>UserId\<close> nor
  \<open>EventId\<close>.
\<close>

theorem registration_row_lacks_references:
  "register_handler open_store (Some alice) ''e1'' ''r1'' 5 =
     (Response 201 (JRegistration
        \<lparr>r_id = ''r1'', r_status = PENDING, r_UserId = None, r_EventId = None,
         r_createdAt = 5, r_updatedAt = 5\<rparr>),
      open_store\<lparr>Registrations :=
        [\<lparr>r_id = ''r1'', r_status = PENDING, r_UserId = None, r_EventId = None,
          r_createdAt = 5, r_updatedAt = 5\<rparr>]\<rparr>)"
  by (simp add: register_handler_def Event_findByPk_def Registration_count_def
      Registration_create_def new_registration_def Let_def demo_defs)

section \<open>Capacity gate and default status\<close>

text \<open>
  Claim C3. When an event of capacity \<open>N\<close> has \<open>N\<close> registrations with status
  CONFIRMED, the next register request of an authenticated caller for it is answered
  400 "Event is full" and the store stays as it was: no registration row is created.
  (The event is a row of the events table, whose primary key is the identifier.)
\<close>

theorem register_handler_at_capacity:
  assumes "distinct (map e_id (Events s))" and "ev \<in> set (Events s)"
    and "e_capacity ev = int N"
    and "length (filter (\<lambda>r. r_EventId r = Some (e_id ev) \<and> r_status r = CONFIRMED)
                   (Registrations s)) = N"
  shows "register_handler s (Some u) (e_id ev) g now =
           (Response 400 (JError ''Event is full''), s)"
proof -
  from assms(1,2) have "Event_findByPk s (e_id ev) = Some ev" by (rule Event_findByPk_row)
  moreover from assms(3,4) have "e_capacity ev \<le> int (Registration_count s (e_id ev))"
    by (simp add: Registration_count_def)
  ultimately show ?thesis by (rule register_handler_full)
qed

theorem register_handler_at_capacity_witness:
  "register_handler full_store (Some alice) ''e1'' ''r1'' 7 =
     (Response 400 (JError ''Event is full''), full_store)"
proof -
  have "distinct (map e_id (Events full_store))" "talk \<in> set (Events full_store)"
    "e_capacity talk = int 1"
    "length (filter (\<lambda>r. r_EventId r = Some (e_id talk) \<and> r_status r = CONFIRMED)
                   (Registrations full_store)) = 1"
    by (simp_all add: demo_defs)
  from register_handler_at_capacity [OF this, of alice "''r1''" 7]
  show ?thesis by (simp add: talk_def)
qed

text \<open>
  Claim C4. For an event of the table and an authenticated caller, the register handler
  answers "Event is full" exactly when the number of registrations that reference the
  event and have status CONFIRMED is at least its capacity: rows of any other status play
  no part in the decision. Every row the handler creates has status PENDING (the create
  call supplies none), so after a successful registration the number of CONFIRMED
  registrations of every event is what it was before: the gate does not count the
  registrations it admitted.
\<close>

theorem gate_counts_confirmed_only:
  assumes "distinct (map e_id (Events s))" and "ev \<in> set (Events s)"
  shows "(fst (register_handler s (Some u) (e_id ev) g now) = Response 400 (JError ''Event is full'')
          \<longleftrightarrow> e_capacity ev \<le> int (length (filter
                (\<lambda>r. r_EventId r = Some (e_id ev) \<and> r_status r = CONFIRMED) (Registrations s))))
       \<and> (\<forall>b s'. register_handler s (Some u) (e_id ev) g now = (Response 201 b, s') \<longrightarrow>
            (\<exists>r. b = JRegistration r \<and> r_status r = PENDING
                \<and> Registrations s' = Registrations s @ [r]
                \<and> (\<forall>j. length (filter (\<lambda>r. r_EventId r = Some j \<and> r_status r = CONFIRMED)
                                   (Registrations s'))
                       = length (filter (\<lambda>r. r_EventId r = Some j \<and> r_status r = CONFIRMED)
                                   (Registrations s)))))"
proof (intro conjI allI impI)
  from assms have f: "Event_findByPk s (e_id ev) = Some ev" by (rule Event_findByPk_row)
  let ?n = "length (filter (\<lambda>r. r_EventId r = Some (e_id ev) \<and> r_status r = CONFIRMED)
                      (Registrations s))"
  show "fst (register_handler s (Some u) (e_id ev) g now) = Response 400 (JError ''Event is full'')
          \<longleftrightarrow> e_capacity ev \<le> int ?n"
  proof (cases "e_capacity ev \<le> int ?n")
    case True
    with f show ?thesis by (simp add: register_handler_def Registration_count_def)
  next
    case False
    with f show ?thesis
      by (simp add: register_handler_def Registration_count_def Registration_create_def Let_def)
  qed
next
  fix b s'
  assume h: "register_handler s (Some u) (e_id ev) g now = (Response 201 b, s')"
  let ?r = "new_registration g now"
  from register_handler_cases [OF h]
  have b: "b = JRegistration ?r" and s': "s' = s\<lparr>Registrations := Registrations s @ [?r]\<rparr>"
    by auto
  have "r_status ?r = PENDING" by (simp add: new_registration_def)
  moreover from s' have "Registrations s' = Registrations s @ [?r]" by simp
  moreover from s' have "\<forall>j. length (filter (\<lambda>r. r_EventId r = Some j \<and> r_status r = CONFIRMED)
                                   (Registrations s'))
                       = length (filter (\<lambda>r. r_EventId r = Some j \<and> r_status r = CONFIRMED)
                                   (Registrations s))"
    by (simp add: new_registration_def)
  ultimately show "\<exists>r. b = JRegistration r \<and> r_status r = PENDING
                \<and> Registrations s' = Registrations s @ [r]
                \<and> (\<forall>j. length (filter (\<lambda>r. r_EventId r = Some j \<and> r_status r = CONFIRMED)
                                   (Registrations s'))
                       = length (filter (\<lambda>r. r_EventId r = Some j \<and> r_status r = CONFIRMED)
                                   (Registrations s)))"
    using b by blast
qed

theorem gate_counts_confirmed_only_witness:
  "fst (register_handler full_store (Some alice) ''e1'' ''r1'' 5)
     = Response 400 (JError ''Event is full'')
   \<and> fst (register_handler open_store (Some alice) ''e1'' ''r1'' 5)
     \<noteq> Response 400 (JError ''Event is full'')
   \<and> (\<exists>r. register_handler open_store (Some alice) ''e1'' ''r1'' 5 =
            (Response 201 (JRegistration r), open_store\<lparr>Registrations := [r]\<rparr>)
        \<and> r_status r = PENDING
        \<and> length (filter (\<lambda>r. r_EventId r = Some ''e1'' \<and> r_status r = CONFIRMED) [r]) = 0)"
proof -
  let ?r = "new_registration ''r1'' 5"
  let ?s' = "open_store\<lparr>Registrations := [?r]\<rparr>"
  have fullh: "distinct (map e_id (Events full_store))" "talk \<in> set (Events full_store)"
    by (simp_all add: demo_defs)
  have openh: "distinct (map e_id (Events open_store))" "talk \<in> set (Events open_store)"
    by (simp_all add: demo_defs)
  note at_full = gate_counts_confirmed_only [OF fullh, of alice "''r1''" 5]
  note at_open = gate_counts_confirmed_only [OF openh, of alice "''r1''" 5]
  have "e_capacity talk \<le> int (length (filter
          (\<lambda>r. r_EventId r = Some (e_id talk) \<and> r_status r = CONFIRMED) (Registrations full_store)))"
    by (simp add: demo_defs)
  with at_full have a: "fst (register_handler full_store (Some alice) ''e1'' ''r1'' 5)
     = Response 400 (JError ''Event is full'')"
    by (simp add: talk_def)
  have "\<not> e_capacity talk \<le> int (length (filter
          (\<lambda>r. r_EventId r = Some (e_id talk) \<and> r_status r = CONFIRMED) (Registrations open_store)))"
    by (simp add: demo_defs)
  with at_open have b: "fst (register_handler open_store (Some alice) ''e1'' ''r1'' 5)
     \<noteq> Response 400 (JError ''Event is full'')"
    by (simp add: talk_def)
  have run: "register_handler open_store (Some alice) (e_id talk) ''r1'' 5 =
      (Response 201 (JRegistration ?r), ?s')"
    by (simp add: register_handler_def Event_findByPk_def Registration_count_def
        Registration_create_def Let_def demo_defs)
  with at_open obtain r where r: "JRegistration ?r = JRegistration r" "r_status r = PENDING"
      "\<forall>j. length (filter (\<lambda>r. r_EventId r = Some j \<and> r_status r = CONFIRMED) (Registrations ?s'))
           = length (filter (\<lambda>r. r_EventId r = Some j \<and> r_status r = CONFIRMED)
               (Registrations open_store))"
    by blast
  then have eq: "r = ?r" by simp
  from r(3) have "length (filter (\<lambda>r. r_EventId r = Some ''e1'' \<and> r_status r = CONFIRMED) [?r]) = 0"
    by (simp add: open_store_def)
  with r(2) eq run have "register_handler open_store (Some alice) ''e1'' ''r1'' 5 =
            (Response 201 (JRegistration r), open_store\<lparr>Registrations := [r]\<rparr>)
        \<and> r_status r = PENDING
        \<and> length (filter (\<lambda>r. r_EventId r = Some ''e1'' \<and> r_status r = CONFIRMED) [r]) = 0"
    by (simp add: talk_def)
  with a b show ?thesis by blast
qed

text \<open>
  Claim C10. The register handler does not look for an earlier registration of the
  caller, and the schema has no uniqueness constraint on the pair of user and event:
  when the capacity gate passes for an event of the table, any number of register calls
  in a row by the same user, whoever it is, for that event all succeed with 201, and each
  appends a new row, all rows pairwise distinct. (Each call draws a UUID no registration
  has yet.)
\<close>

theorem repeated_registration:
  assumes "distinct (map e_id (Events s))" and "ev \<in> set (Events s)"
    and "int (length (filter (\<lambda>r. r_EventId r = Some (e_id ev) \<and> r_status r = CONFIRMED)
                        (Registrations s))) < e_capacity ev"
    and "distinct (map fst gts)" and "fst ` set gts \<inter> r_id ` set (Registrations s) = {}"
  shows "register_repeatedly s u (e_id ev) gts =
           (map (\<lambda>(g, now). Response 201 (JRegistration (new_registration g now))) gts,
            s\<lparr>Registrations := Registrations s @ map (\<lambda>(g, now). new_registration g now) gts\<rparr>)
         \<and> distinct (map (\<lambda>(g, now). new_registration g now) gts)"
  using assms
proof (induction gts arbitrary: s)
  case Nil
  then show ?case by simp
next
  case (Cons gt rest)
  obtain g now where gt: "gt = (g, now)" by (cases gt)
  let ?r = "new_registration g now"
  let ?s1 = "s\<lparr>Registrations := Registrations s @ [?r]\<rparr>"
  from Cons.prems(1,2) have f: "Event_findByPk s (e_id ev) = Some ev"
    by (rule Event_findByPk_row)
  from Cons.prems(3) have c: "int (Registration_count s (e_id ev)) < e_capacity ev"
    by (simp add: Registration_count_def)
  from Cons.prems gt have fresh: "g \<notin> r_id ` set (Registrations s)" by auto
  have step: "register_handler s (Some u) (e_id ev) g now = (Response 201 (JRegistration ?r), ?s1)"
    using f c fresh by (rule register_handler_admits)
  have e1: "distinct (map e_id (Events ?s1))" "ev \<in> set (Events ?s1)"
    using Cons.prems(1,2) by simp_all
  have c1: "int (length (filter (\<lambda>r. r_EventId r = Some (e_id ev) \<and> r_status r = CONFIRMED)
                        (Registrations ?s1))) < e_capacity ev"
    using Cons.prems(3) by (simp add: new_registration_def)
  have d1: "distinct (map fst rest)" using Cons.prems(4) by simp
  have g_rest: "g \<notin> fst ` set rest" using Cons.prems(4) gt by auto
  have r1: "fst ` set rest \<inter> r_id ` set (Registrations ?s1) = {}"
    using Cons.prems(5) g_rest by (auto simp: new_registration_def)
  note IH = Cons.IH [OF e1 c1 d1 r1]
  have notin: "?r \<notin> set (map (\<lambda>(g, now). new_registration g now) rest)"
    using g_rest by (force simp: new_registration_def)
  from IH step gt notin show ?case by simp
qed

theorem repeated_registration_witness:
  "register_repeatedly open_store alice ''e1'' [(''r1'', 5), (''r2'', 6)] =
     ([Response 201 (JRegistration (new_registration ''r1'' 5)),
       Response 201 (JRegistration (new_registration ''r2'' 6))],
      open_store\<lparr>Registrations := [new_registration ''r1'' 5, new_registration ''r2'' 6]\<rparr>)
   \<and> new_registration ''r1'' 5 \<noteq> new_registration ''r2'' 6"
proof -
  have "distinct (map e_id (Events open_store))" "talk \<in> set (Events open_store)"
    "int (length (filter (\<lambda>r. r_EventId r = Some (e_id talk) \<and> r_status r = CONFIRMED)
                    (Registrations open_store))) < e_capacity talk"
    "distinct (map fst [(''r1'', 5::int), (''r2'', 6)])"
    "fst ` set [(''r1'', 5::int), (''r2'', 6)] \<inter> r_id ` set (Registrations open_store) = {}"
    by (simp_all add: demo_defs)
  from repeated_registration [OF this, of alice]
  show ?thesis by (simp add: demo_defs)
qed

section \<open>Cascading deletes\<close>

text \<open>
  Claim C6. Deleting a user row leaves no registration whose \<open>UserId\<close> references
  it, and the registrations that do not reference it are the same rows in the same order
  as before; likewise for an event row and \<open>EventId\<close>. The delete route, for an
  administrator and an existing event, answers 204 with exactly that effect.
\<close>

theorem delete_cascades:
  "(\<forall>r \<in> set (Registrations (User_destroy s i)). r_UserId r \<noteq> Some i)
   \<and> filter (\<lambda>r. r_UserId r \<noteq> Some i) (Registrations s) = Registrations (User_destroy s i)
   \<and> (\<forall>r \<in> set (Registrations (Event_destroy s i)). r_EventId r \<noteq> Some i)
   \<and> filter (\<lambda>r. r_EventId r \<noteq> Some i) (Registrations s) = Registrations (Event_destroy s i)
   \<and> (\<forall>u ev. isAdmin u \<and> Event_findByPk s i = Some ev \<longrightarrow>
         delete_handler s (Some u) i = (Response 204 JEmpty, Event_destroy s i))"
proof (intro conjI ballI allI impI)
  fix r assume "r \<in> set (Registrations (User_destroy s i))"
  then show "r_UserId r \<noteq> Some i" by (simp add: User_destroy_def)
next
  show "filter (\<lambda>r. r_UserId r \<noteq> Some i) (Registrations s) = Registrations (User_destroy s i)"
    by (simp add: User_destroy_def)
next
  fix r assume "r \<in> set (Registrations (Event_destroy s i))"
  then show "r_EventId r \<noteq> Some i" by (simp add: Event_destroy_def)
next
  show "filter (\<lambda>r. r_EventId r \<noteq> Some i) (Registrations s) = Registrations (Event_destroy s i)"
    by (simp add: Event_destroy_def)
next
  fix u ev assume h: "isAdmin u \<and> Event_findByPk s i = Some ev"
  then have "e_id ev = i" using Event_findByPk_Some_id by blast
  with h show "delete_handler s (Some u) i = (Response 204 JEmpty, Event_destroy s i)"
    by (simp add: delete_handler_def)
qed

theorem delete_cascades_witness:
  "Registrations (User_destroy busy_store ''u1'') = [seat]
   \<and> Registrations (Event_destroy busy_store ''e1'') = [seat2]
   \<and> delete_handler busy_store (Some carol) ''e1'' =
       (Response 204 JEmpty,
        \<lparr>Users = [alice, carol], Events = [workshop], Registrations = [seat2]\<rparr>)"
proof -
  note inst = delete_cascades [of busy_store "''u1''"] delete_cascades [of busy_store "''e1''"]
  have "isAdmin carol \<and> Event_findByPk busy_store ''e1'' = Some talk"
    by (simp add: isAdmin_def Event_findByPk_def busy_store_def carol_def talk_def)
  with inst(2) have "delete_handler busy_store (Some carol) ''e1'' =
      (Response 204 JEmpty, Event_destroy busy_store ''e1'')"
    by blast
  moreover have "Event_destroy busy_store ''e1'' =
      \<lparr>Users = [alice, carol], Events = [workshop], Registrations = [seat2]\<rparr>"
    by (simp add: Event_destroy_def busy_store_def talk_def workshop_def seat_def seat2_def)
  moreover from inst(1) have "Registrations (User_destroy busy_store ''u1'') =
      filter (\<lambda>r. r_UserId r \<noteq> Some ''u1'') (Registrations busy_store)"
    by simp
  moreover from inst(2) have "Registrations (Event_destroy busy_store ''e1'') =
      filter (\<lambda>r. r_EventId r \<noteq> Some ''e1'') (Registrations busy_store)"
    by simp
  ultimately show ?thesis
    by (simp add: busy_store_def seat_def seat2_def)
qed

section \<open>Authorization of update and delete\<close>

text \<open>
  Claim C8. \<^verbatim>\<open>PUT /api/events/:id\<close> is permitted for every authenticated caller, and
  its result does not depend on the caller's role. \<^verbatim>\<open>DELETE /api/events/:id\<close> is
  permitted exactly for authenticated callers whose role is ADMIN; for any other
  authenticated caller \<^verbatim>\<open>isAdmin\<close> refuses the request and the store stays as it was.
\<close>

theorem update_open_delete_admin_only:
  "permitted (fst (update_handler s (Some u) i now b))
   \<and> update_handler s (Some u) i now b = update_handler s (Some (u\<lparr>u_role := ro\<rparr>)) i now b
   \<and> (permitted (fst (delete_handler s caller i)) \<longleftrightarrow>
        (\<exists>a. caller = Some a \<and> u_role a = ADMIN))
   \<and> (u_role u \<noteq> ADMIN \<longrightarrow> delete_handler s (Some u) i = (RefusedByIsAdmin, s))"
proof (intro conjI impI)
  show "permitted (fst (update_handler s (Some u) i now b))"
    by (simp add: update_handler_def permitted_def split: option.splits sum.splits prod.splits)
next
  show "update_handler s (Some u) i now b = update_handler s (Some (u\<lparr>u_role := ro\<rparr>)) i now b"
    by (simp add: update_handler_def)
next
  show "permitted (fst (delete_handler s caller i)) \<longleftrightarrow> (\<exists>a. caller = Some a \<and> u_role a = ADMIN)"
    by (simp add: delete_handler_def permitted_def isAdmin_def split: option.splits)
next
  assume "u_role u \<noteq> ADMIN"
  then show "delete_handler s (Some u) i = (RefusedByIsAdmin, s)"
    by (simp add: delete_handler_def isAdmin_def)
qed

theorem update_open_delete_admin_only_witness:
  "fst (update_handler open_store (Some alice) ''e1'' 9 rename) =
      Response 200 (JEvent (talk\<lparr>e_name := ''Keynote'', e_updatedAt := 9\<rparr>))
   \<and> delete_handler open_store (Some alice) ''e1'' = (RefusedByIsAdmin, open_store)
   \<and> permitted (fst (delete_handler open_store (Some carol) ''e1''))"
proof -
  note inst = update_open_delete_admin_only [of open_store alice "''e1''" 9 rename USER "Some carol"]
  have "u_role alice \<noteq> ADMIN" by (simp add: alice_def)
  with inst have "delete_handler open_store (Some alice) ''e1'' = (RefusedByIsAdmin, open_store)"
    by blast
  moreover have "\<exists>a. Some carol = Some a \<and> u_role a = ADMIN" by (simp add: carol_def)
  with inst have "permitted (fst (delete_handler open_store (Some carol) ''e1''))" by blast
  moreover have "fst (update_handler open_store (Some alice) ''e1'' 9 rename) =
      Response 200 (JEvent (talk\<lparr>e_name := ''Keynote'', e_updatedAt := 9\<rparr>))"
    using inst
    by (simp add: update_handler_def Event_findByPk_def Event_update_def rename_def Let_def
        open_store_def talk_def)
  ultimately show ?thesis by blast
qed

section \<open>Listing events\<close>









section \<open>Invariants of the reachable states\<close>

text \<open>
  No operation writes a status: a registration is created PENDING or not at all, and the
  only other thing that happens to registrations is that they are deleted by a cascade.
  Capacities are validated on every create and update of an event.
\<close>

lemma create_handler_Registrations:
  "Registrations (snd (create_handler s caller g now b)) = Registrations s"
  by (auto simp: create_handler_def Event_create_def Let_def split: option.splits if_splits)

lemma update_handler_Registrations:
  "Registrations (snd (update_handler s caller i now b)) = Registrations s"
  by (auto simp: update_handler_def Event_update_def Let_def split: option.splits if_splits)

lemma delete_handler_Registrations:
  "set (Registrations (snd (delete_handler s caller i))) \<subseteq> set (Registrations s)"
  by (auto simp: delete_handler_def Event_destroy_def split: option.splits if_splits)

lemma register_handler_Registrations:
  "set (Registrations (snd (register_handler s caller i g now)))
     \<subseteq> set (Registrations s) \<union> {r. r_status r = PENDING}"
proof -
  obtain out s' where h: "register_handler s caller i g now = (out, s')"
    by (cases "register_handler s caller i g now")
  from register_handler_cases [OF h] h show ?thesis
    by (auto simp: new_registration_def)
qed

lemma apply_op_Registrations:
  "set (Registrations (apply_op s op)) \<subseteq> set (Registrations s) \<union> {r. r_status r = PENDING}"
proof (cases op)
  case (RegisterFor caller i g now)
  then show ?thesis using register_handler_Registrations [of s caller i g now] by simp
next
  case (DeleteEvent caller i)
  then show ?thesis using delete_handler_Registrations [of s caller i] by auto
next
  case (InsertUser u)
  then show ?thesis by (auto simp: User_create_def split: if_splits)
qed (auto simp: create_handler_Registrations update_handler_Registrations User_destroy_def)

lemma run_Registrations:
  "set (Registrations (run s ops)) \<subseteq> set (Registrations s) \<union> {r. r_status r = PENDING}"
  unfolding run_def
proof (induction ops arbitrary: s)
  case Nil
  then show ?case by simp
next
  case (Cons op ops)
  from Cons.IH [of "apply_op s op"] apply_op_Registrations [of s op]
  show ?case by auto
qed

lemma register_handler_Events:
  "Events (snd (register_handler s caller i g now)) = Events s"
  by (auto simp: register_handler_def Registration_create_def Let_def
      split: option.splits if_splits)

lemma create_handler_chk:
  "events_chk_1 s \<Longrightarrow> events_chk_1 (snd (create_handler s caller g now b))"
  by (auto simp: create_handler_def Event_create_def events_chk_1_def Let_def
      split: option.splits if_splits)

lemma update_handler_chk:
  "events_chk_1 s \<Longrightarrow> events_chk_1 (snd (update_handler s caller i now b))"
  by (auto simp: update_handler_def Event_update_def events_chk_1_def Let_def list_all_iff
      split: option.splits if_splits dest: Event_findByPk_Some_id)

lemma delete_handler_chk:
  "events_chk_1 s \<Longrightarrow> events_chk_1 (snd (delete_handler s caller i))"
  by (auto simp: delete_handler_def Event_destroy_def events_chk_1_def list_all_iff
      split: option.splits if_splits)

lemma apply_op_chk: "events_chk_1 s \<Longrightarrow> events_chk_1 (apply_op s op)"
proof (cases op)
  case (RegisterFor caller i g now)
  assume "events_chk_1 s"
  with RegisterFor show ?thesis
    by (simp add: events_chk_1_def register_handler_Events)
next
  case (InsertUser u)
  assume "events_chk_1 s"
  with InsertUser show ?thesis by (auto simp: User_create_def events_chk_1_def split: if_splits)
next
  case (DeleteUser i)
  assume "events_chk_1 s"
  with DeleteUser show ?thesis by (simp add: User_destroy_def events_chk_1_def)
qed (simp_all add: create_handler_chk update_handler_chk delete_handler_chk)

lemma run_chk: "events_chk_1 s \<Longrightarrow> events_chk_1 (run s ops)"
  unfolding run_def
  by (induction ops arbitrary: s) (simp_all add: apply_op_chk)

lemma Registration_count_0:
  "\<forall>r \<in> set (Registrations s). r_status r \<noteq> CONFIRMED \<Longrightarrow> Registration_count s i = 0"
  by (simp add: Registration_count_def)

lemma demo_run:
  "run open_store demo_ops =
     \<lparr>Users = [alice, carol], Events = [talk\<lparr>e_name := ''Keynote'', e_updatedAt := 7\<rparr>],
      Registrations = [new_registration ''r1'' 5, new_registration ''r2'' 6,
                       new_registration ''r3'' 8]\<rparr>"
  by (simp add: run_def demo_ops_def register_handler_def update_handler_def Event_findByPk_def
      Registration_count_def Registration_create_def Event_update_def new_registration_def
      Let_def demo_defs)


text \<open>
  Claim C2. Start from a database that meets the check constraint on capacities and
  holds no CONFIRMED registration (the empty database, for one). Then in the state after
  any sequence of operations, every event has at most as many CONFIRMED registrations as
  its capacity.
\<close>

theorem confirmed_within_capacity:
  assumes "\<forall>r \<in> set (Registrations s0). r_status r \<noteq> CONFIRMED" and "events_chk_1 s0"
  shows "\<forall>ev \<in> set (Events (run s0 ops)).
           int (length (filter (\<lambda>r. r_EventId r = Some (e_id ev) \<and> r_status r = CONFIRMED)
                          (Registrations (run s0 ops)))) \<le> e_capacity ev"
proof
  fix ev assume ev: "ev \<in> set (Events (run s0 ops))"
  from assms(1) run_Registrations [of s0 ops]
  have "\<forall>r \<in> set (Registrations (run s0 ops)). r_status r \<noteq> CONFIRMED" by auto
  then have "Registration_count (run s0 ops) (e_id ev) = 0" by (rule Registration_count_0)
  moreover from assms(2) have "events_chk_1 (run s0 ops)" by (rule run_chk)
  with ev have "1 \<le> e_capacity ev" by (simp add: events_chk_1_def list_all_iff)
  ultimately show "int (length (filter (\<lambda>r. r_EventId r = Some (e_id ev) \<and> r_status r = CONFIRMED)
                          (Registrations (run s0 ops)))) \<le> e_capacity ev"
    by (simp add: Registration_count_def)
qed

theorem confirmed_within_capacity_witness:
  "int (length (filter (\<lambda>r. r_EventId r = Some ''e1'' \<and> r_status r = CONFIRMED)
                  (Registrations (run open_store demo_ops)))) \<le> 1"
proof -
  have "\<forall>r \<in> set (Registrations open_store). r_status r \<noteq> CONFIRMED" "events_chk_1 open_store"
    by (simp_all add: events_chk_1_def demo_defs)
  from confirmed_within_capacity [OF this, of demo_ops]
  show ?thesis by (simp add: demo_run talk_def)
qed

text \<open>
  Claim C9. Start from a database with no registrations (and capacities that meet the
  check constraint). Then in the state after any sequence of operations every
  registration has status PENDING, the CONFIRMED count of every event is 0, and no
  register request is answered 400 "Event is full".
\<close>

theorem all_pending_gate_never_closes:
  assumes "Registrations s0 = []" and "events_chk_1 s0"
  shows "(\<forall>r \<in> set (Registrations (run s0 ops)). r_status r = PENDING)
       \<and> (\<forall>i. Registration_count (run s0 ops) i = 0)
       \<and> (\<forall>caller i g now. fst (register_handler (run s0 ops) caller i g now)
                               \<noteq> Response 400 (JError ''Event is full''))"
proof (intro conjI allI)
  let ?s = "run s0 ops"
  from assms(1) run_Registrations [of s0 ops]
  show pending: "\<forall>r \<in> set (Registrations ?s). r_status r = PENDING" by auto
  then have "\<forall>r \<in> set (Registrations ?s). r_status r \<noteq> CONFIRMED" by simp
  then show zero: "Registration_count ?s i = 0" for i by (rule Registration_count_0)
  from assms(2) have chk: "events_chk_1 ?s" by (rule run_chk)
  show "fst (register_handler ?s caller i g now) \<noteq> Response 400 (JError ''Event is full'')"
    for caller i g now
  proof (cases caller)
    case None
    then show ?thesis by (simp add: register_handler_def)
  next
    case (Some u)
    show ?thesis
    proof (cases "Event_findByPk ?s i")
      case None
      with Some show ?thesis by (simp add: register_handler_def)
    next
      case (Some ev)
      then have "ev \<in> set (Events ?s)" using Event_findByPk_Some_id by blast
      with chk have "1 \<le> e_capacity ev" by (simp add: events_chk_1_def list_all_iff)
      with Some \<open>caller = Some u\<close> zero [of "e_id ev"] show ?thesis
        by (simp add: register_handler_def split: sum.splits)
    qed
  qed
qed

theorem all_pending_gate_never_closes_witness:
  "map r_status (Registrations (run open_store demo_ops)) = [PENDING, PENDING, PENDING]
   \<and> Registration_count (run open_store demo_ops) ''e1'' = 0
   \<and> fst (register_handler (run open_store demo_ops) (Some alice) ''e1'' ''r4'' 9)
       \<noteq> Response 400 (JError ''Event is full'')"
proof -
  have "Registrations open_store = []" "events_chk_1 open_store"
    by (simp_all add: events_chk_1_def demo_defs)
  from all_pending_gate_never_closes [OF this, of demo_ops]
  show ?thesis by (simp add: demo_run new_registration_def)
qed

section \<open>Concurrent registrations\<close>

text \<open>
  Run alone, the three steps of a request are the handler.
\<close>

lemma register_handler_steps:
  "interleave s [AtFindByPk caller i g now] [0, 0, 0] =
     (snd (register_handler s caller i g now), [Answered (fst (register_handler s caller i g now))])"
  by (auto simp: register_handler_def Let_def split: option.splits sum.splits)

text \<open>
  Claim C5. Of several register requests that run concurrently for an event of capacity
  1 with no CONFIRMED registration, exactly one is to succeed and the others are to be
  answered "Event is full". The code does not deliver this. Alice and Carol request the
  only place of the talk in \<open>open_store\<close> and their database calls alternate: both find
  the event, both count no CONFIRMED registration, both insert. Both are answered 201,
  neither "Event is full", and the table holds two new rows.
\<close>

theorem one_place_two_admitted:
  "Event_findByPk open_store ''e1'' = Some talk \<and> e_capacity talk = 1
   \<and> Registration_count open_store ''e1'' = 0
   \<and> map succeeded (snd (interleave open_store
        [AtFindByPk (Some alice) ''e1'' ''r1'' 5, AtFindByPk (Some carol) ''e1'' ''r2'' 5]
        [0, 1, 0, 1, 0, 1])) = [True, True]
   \<and> map full (snd (interleave open_store
        [AtFindByPk (Some alice) ''e1'' ''r1'' 5, AtFindByPk (Some carol) ''e1'' ''r2'' 5]
        [0, 1, 0, 1, 0, 1])) = [False, False]
   \<and> length (Registrations (fst (interleave open_store
        [AtFindByPk (Some alice) ''e1'' ''r1'' 5, AtFindByPk (Some carol) ''e1'' ''r2'' 5]
        [0, 1, 0, 1, 0, 1]))) = 2"
  by (simp add: Event_findByPk_def Registration_count_def Registration_create_def
      new_registration_def Let_def succeeded_def full_def demo_defs)

end
